theory Spec2Isabelle
  imports Complex_Main
begin

section \<open>The pipeline executor (miv/core/pipeline.py)\<close>

subsection \<open>Objects, the heap and the console\<close>

text \<open>
  Nodes are Python objects reached through references, so the model keeps them in a heap
  indexed by reference. Of a node the executor reads its string form (\<open>str(node)\<close>),
  tests whether it has a \<open>cacher\<close> attribute and writes the \<open>cache_policy\<close> of that
  attribute. The policies are the Python strings \<open>"OFF"\<close> and \<open>"AUTO"\<close>.
\<close>

type_synonym ref = nat

record cache_controller =
  cache_policy :: string

record node =
  node_str :: string
  cacher :: "cache_controller option"

text \<open>
  The world a run works on: the heap of nodes, the text written to standard output so
  far, and whatever else a node's own \<open>run\<close> may read or write (files under the save
  path, for instance), which the executor never looks at.
\<close>

record 'x world =
  heap :: "ref \<Rightarrow> node"
  stdout :: string
  rest :: 'x

datatype py_exception = PyException string

text \<open>
  A node's \<open>run(dry_run, save_path)\<close> is code outside this file. It is a parameter of the
  model: given the node, the two arguments and the world it returns the world it leaves
  behind and the exception it raised, if any. \<open>save_path\<close> is a string or Python's
  \<open>None\<close>.
\<close>

type_synonym 'x node_run =
  "ref \<Rightarrow> bool \<Rightarrow> string option \<Rightarrow> 'x world \<Rightarrow> py_exception option \<times> 'x world"

text \<open>
  Every invocation of a node's \<open>run\<close> is recorded with its arguments and the world the
  node was handed, so that theorems can speak about what each node saw.
\<close>

record 'x call =
  call_node :: ref
  call_dry_run :: bool
  call_save_path :: "string option"
  call_world :: "'x world"

text \<open>\<open>print(a)\<close> and \<open>print(a, b)\<close>: the arguments separated by one blank, then a newline.\<close>

definition newline :: string where
  "newline = [CHR 0x0A]"

definition print1 :: "string \<Rightarrow> 'x world \<Rightarrow> 'x world" where
  "print1 a w = w\<lparr>stdout := stdout w @ a @ newline\<rparr>"

definition print2 :: "string \<Rightarrow> string \<Rightarrow> 'x world \<Rightarrow> 'x world" where
  "print2 a b w = w\<lparr>stdout := stdout w @ a @ '' '' @ b @ newline\<rparr>"

subsection \<open>Decimal form of an index\<close>

definition digit_char :: "nat \<Rightarrow> char" where
  "digit_char d = char_of (48 + d)"

fun str_nat :: "nat \<Rightarrow> string" where
  "str_nat n = (if n < 10 then [digit_char n] else str_nat (n div 10) @ [digit_char (n mod 10)])"

declare str_nat.simps [simp del]

subsection \<open>The Pipeline class\<close>

record pipeline =
  execution_order :: "ref list"

text \<open>
  \<open>Pipeline.__init__\<close>: the order is whatever \<open>node.topological_sort()\<close> returns at that
  moment. The sort belongs to the chainable node (not part of this file); it reads the
  graph out of the world, so it is a parameter taking the world and the terminal node.
\<close>

definition Pipeline_init :: "('x world \<Rightarrow> ref \<Rightarrow> ref list) \<Rightarrow> 'x world \<Rightarrow> ref \<Rightarrow> pipeline" where
  "Pipeline_init topological_sort w node = \<lparr>execution_order = topological_sort w node\<rparr>"

text \<open>\<open>"\n".join(strs)\<close>\<close>

fun join_newline :: "string list \<Rightarrow> string" where
  "join_newline [] = []"
| "join_newline [s] = s"
| "join_newline (s # t # ss) = s @ newline @ join_newline (t # ss)"

text \<open>
  \<open>Pipeline.summarize\<close>: the loop over \<open>enumerate(self.execution_order)\<close> appends one
  formatted line per node to \<open>strs\<close>; \<open>i\<close> is the running index.
\<close>

fun summarize_loop :: "'x world \<Rightarrow> nat \<Rightarrow> ref list \<Rightarrow> string list \<Rightarrow> string list" where
  "summarize_loop w i [] strs = strs"
| "summarize_loop w i (op # ops) strs =
     summarize_loop w (Suc i) ops (strs @ [str_nat i @ '': '' @ node_str (heap w op)])"

definition summarize :: "pipeline \<Rightarrow> 'x world \<Rightarrow> string" where
  "summarize self w =
     join_newline (summarize_loop w 0 (execution_order self) ([] @ [''Execution order:'']))"

text \<open>The body of the loop of \<open>Pipeline.run\<close>, up to the call of the node's \<open>run\<close>.\<close>

definition announce :: "bool \<Rightarrow> ref \<Rightarrow> 'x world \<Rightarrow> 'x world" where
  "announce verbose n w = (if verbose then print2 ''Running: '' (node_str (heap w n)) w else w)"

definition configure_cache :: "bool \<Rightarrow> ref \<Rightarrow> 'x world \<Rightarrow> 'x world" where
  "configure_cache no_cache n w =
     (case cacher (heap w n) of
        None \<Rightarrow> w
      | Some c \<Rightarrow>
          w\<lparr>heap := (heap w)(n := (heap w n)
              \<lparr>cacher := Some (c\<lparr>cache_policy := (if no_cache then ''OFF'' else ''AUTO'')\<rparr>)\<rparr>)\<rparr>)"

text \<open>
  The loop itself. A raised exception ends it at once, with the world as the failing node
  left it; the third component lists the invocations made.
\<close>

fun run_loop ::
  "'x node_run \<Rightarrow> string option \<Rightarrow> bool \<Rightarrow> bool \<Rightarrow> bool \<Rightarrow> ref list \<Rightarrow> 'x world
     \<Rightarrow> py_exception option \<times> 'x world \<times> 'x call list" where
  "run_loop nrun save_path no_cache dry_run verbose [] w = (None, w, [])"
| "run_loop nrun save_path no_cache dry_run verbose (n # ns) w =
     (let w1 = announce verbose n w;
          w2 = configure_cache no_cache n w1;
          c = \<lparr>call_node = n, call_dry_run = dry_run, call_save_path = save_path,
               call_world = w2\<rparr>
      in case nrun n dry_run save_path w2 of
           (Some e, w3) \<Rightarrow> (Some e, w3, [c])
         | (None, w3) \<Rightarrow>
             (case run_loop nrun save_path no_cache dry_run verbose ns w3 of
                (r, w4, cs) \<Rightarrow> (r, w4, c # cs)))"

text \<open>
  \<open>Pipeline.run\<close> with all four arguments given. After the loop, in verbose mode, it
  prints \<open>Pipeline done:\<close>, evaluates \<open>self.summarize()\<close> as an expression statement (the
  string it returns is dropped) and prints a rule of 46 dashes.
\<close>

definition run ::
  "pipeline \<Rightarrow> string option \<Rightarrow> bool \<Rightarrow> bool \<Rightarrow> bool \<Rightarrow> 'x node_run \<Rightarrow> 'x world
     \<Rightarrow> py_exception option \<times> 'x world \<times> 'x call list" where
  "run self save_path no_cache dry_run verbose nrun w =
     (case run_loop nrun save_path no_cache dry_run verbose (execution_order self) w of
        (Some e, w', cs) \<Rightarrow> (Some e, w', cs)
      | (None, w', cs) \<Rightarrow>
          (if verbose then
             (let w1 = print1 ''Pipeline done:'' w';
                  dropped = summarize self w1
              in (None, print1 (replicate 46 CHR ''-'') w1, cs))
           else (None, w', cs)))"

text \<open>
  A call that may leave arguments out: an argument that is not given takes the default of
  the signature (\<open>"./results"\<close>, \<open>False\<close>, \<open>False\<close>, \<open>False\<close>).
\<close>

record run_kwargs =
  kw_save_path :: "string option option"
  kw_no_cache :: "bool option"
  kw_dry_run :: "bool option"
  kw_verbose :: "bool option"

definition run_call ::
  "pipeline \<Rightarrow> run_kwargs \<Rightarrow> 'x node_run \<Rightarrow> 'x world
     \<Rightarrow> py_exception option \<times> 'x world \<times> 'x call list" where
  "run_call self kw nrun w =
     run self
       (case kw_save_path kw of None \<Rightarrow> Some ''./results'' | Some p \<Rightarrow> p)
       (case kw_no_cache kw of None \<Rightarrow> False | Some b \<Rightarrow> b)
       (case kw_dry_run kw of None \<Rightarrow> False | Some b \<Rightarrow> b)
       (case kw_verbose kw of None \<Rightarrow> False | Some b \<Rightarrow> b)
       nrun w"

subsection \<open>A three-node pipeline to evaluate on\<close>

text \<open>
  Three nodes printing as \<open>A\<close>, \<open>B\<close> and \<open>C\<close>; the second has no cache controller, the
  others have one whose policy is \<open>"ON"\<close>. \<open>quiet_run\<close> is a node body that does nothing,
  \<open>failing_run bad\<close> one that raises in node \<open>bad\<close>, and \<open>chain_sort\<close> a sort whose answer
  depends on the world it is asked in.
\<close>

definition abc_world :: "unit world" where
  "abc_world = \<lparr>heap = (\<lambda>r. \<lparr>node_str = (if r = 0 then ''A'' else if r = 1 then ''B'' else ''C''),
                               cacher = (if r = 1 then None else Some \<lparr>cache_policy = ''ON''\<rparr>)\<rparr>),
                 stdout = [], rest = ()\<rparr>"

definition quiet_run :: "unit node_run" where
  "quiet_run n dry_run save_path w = (None, w)"

definition failing_run :: "ref \<Rightarrow> unit node_run" where
  "failing_run bad n dry_run save_path w =
     (if n = bad then (Some (PyException ''boom''), w) else (None, w))"

definition chain_sort :: "unit world \<Rightarrow> ref \<Rightarrow> ref list" where
  "chain_sort w n = (if stdout w = [] then [0..<Suc n] else [])"

section \<open>Spike detection (miv/signal/spike/detection.py)\<close>

text \<open>
  Samples, times and rates are floating-point numbers in the source; the model takes them
  as real numbers (no rounding, no infinities, no NaN). Indices are integers.
\<close>

datatype np_error = ValueError | IndexError

subsection \<open>The numpy operations used\<close>

text \<open>\<open>np.diff\<close> of a boolean array compares neighbours with \<open>!=\<close>; of an integer array it subtracts them.\<close>

definition np_diff_bool :: "bool list \<Rightarrow> bool list" where
  "np_diff_bool bs = map (\<lambda>(a, b). b \<noteq> a) (zip bs (tl bs))"

definition np_diff_int :: "int list \<Rightarrow> int list" where
  "np_diff_int xs = map (\<lambda>(a, b). b - a) (zip xs (tl xs))"

definition np_diff_real :: "real list \<Rightarrow> real list" where
  "np_diff_real xs = map (\<lambda>(a, b). b - a) (zip xs (tl xs))"

text \<open>\<open>a.nonzero()[0]\<close>: the indices of the true entries, ascending.\<close>

definition np_nonzero :: "bool list \<Rightarrow> int list" where
  "np_nonzero bs = map int (filter (\<lambda>i. bs ! i) [0..<length bs])"

definition np_all :: "bool list \<Rightarrow> bool" where
  "np_all bs = list_all (\<lambda>b. b) bs"

text \<open>\<open>a[keep]\<close> with a boolean keep: the keep must be as long as the array.\<close>

definition bool_index :: "'a list \<Rightarrow> bool list \<Rightarrow> np_error + 'a list" where
  "bool_index xs keep =
     (if length keep \<noteq> length xs then Inl IndexError
      else Inr (map fst (filter snd (zip xs keep))))"

text \<open>\<open>a[lo:hi]\<close>: a negative bound counts from the end, and both are clipped to the array.\<close>

definition slice_bound :: "int \<Rightarrow> int \<Rightarrow> int" where
  "slice_bound i n = (if i < 0 then max (i + n) 0 else min i n)"

definition py_slice :: "'a list \<Rightarrow> int \<Rightarrow> int \<Rightarrow> 'a list" where
  "py_slice xs lo hi =
     (let n = int (length xs); l = slice_bound lo n; h = slice_bound hi n
      in take (nat (h - l)) (drop (nat l) xs))"

text \<open>\<open>np.argmin\<close>: the first position of the least entry; an empty array is a ValueError.\<close>

fun argmin_scan :: "real \<Rightarrow> nat \<Rightarrow> nat \<Rightarrow> real list \<Rightarrow> nat" where
  "argmin_scan best pos i [] = pos"
| "argmin_scan best pos i (x # xs) =
     (if x < best then argmin_scan x i (Suc i) xs else argmin_scan best pos (Suc i) xs)"

fun np_argmin :: "real list \<Rightarrow> np_error + nat" where
  "np_argmin [] = Inl ValueError"
| "np_argmin (x # xs) = Inr (argmin_scan x 0 1 xs)"

definition np_min :: "real list \<Rightarrow> np_error + real" where
  "np_min xs = (case xs of [] \<Rightarrow> Inl ValueError | y # ys \<Rightarrow> Inr (fold min ys y))"

text \<open>
  \<open>np.median\<close> and \<open>np.std\<close>. Of an empty array numpy returns NaN (with a warning); the
  model returns 0 there, and the threshold is then compared with no sample at all.
\<close>

definition np_median :: "real list \<Rightarrow> real" where
  "np_median xs =
     (let s = sort xs; n = length s
      in if n = 0 then 0
         else if odd n then s ! (n div 2)
         else (s ! (n div 2 - 1) + s ! (n div 2)) / 2)"

definition np_mean :: "real list \<Rightarrow> real" where
  "np_mean xs = (if xs = [] then 0 else sum_list xs / real (length xs))"

definition np_std :: "real list \<Rightarrow> real" where
  "np_std xs = sqrt (np_mean (map (\<lambda>x. (abs (x - np_mean xs))\<^sup>2) xs))"

text \<open>\<open>int(x)\<close> of a float: truncation towards zero.\<close>

definition py_int :: "real \<Rightarrow> int" where
  "py_int x = (if 0 \<le> x then \<lfloor>x\<rfloor> else \<lceil>x\<rceil>)"

subsection \<open>ThresholdCutoff\<close>

record ThresholdCutoff =
  dead_time :: real
  search_range :: real
  cutoff :: real
  use_mad :: bool
  tag :: string
  progress_bar :: bool
  units :: string
  return_neotype :: bool

definition ThresholdCutoff_default :: ThresholdCutoff where
  "ThresholdCutoff_default =
     \<lparr>dead_time = 3 / 1000, search_range = 2 / 1000, cutoff = 5, use_mad = True,
      tag = ''spike detection'', progress_bar = False, units = ''sec'',
      return_neotype = False\<rparr>"

definition compute_spike_threshold :: "real list \<Rightarrow> real \<Rightarrow> bool \<Rightarrow> real" where
  "compute_spike_threshold signal cutoff' use_mad' =
     (let noise_mid = (if use_mad' then np_median (map abs signal) / (6745 / 10000)
                       else np_std signal)
      in - cutoff' * noise_mid)"

text \<open>
  The keep of sufficient distances: \<open>np.insert(np.diff(crossings) >= dead_time_idx, 0, True)\<close>.
\<close>

definition distance_sufficient :: "int list \<Rightarrow> real \<Rightarrow> bool list" where
  "distance_sufficient threshold_crossings dead_time_idx =
     True # map (\<lambda>g. dead_time_idx \<le> real_of_int g) (np_diff_int threshold_crossings)"

lemma bool_index_shorter:
  assumes "bool_index xs keep = Inr ys" and "\<not> np_all keep"
  shows "length ys < length xs"
proof -
  have len: "length keep = length xs" and ys: "ys = map fst (filter snd (zip xs keep))"
    using assms(1) by (auto simp: bool_index_def split: if_splits)
  obtain b where "b \<in> set keep" "\<not> b"
    using assms(2) by (auto simp: np_all_def list_all_iff)
  then obtain i where "i < length keep" "\<not> keep ! i"
    by (metis in_set_conv_nth)
  then have "(xs ! i, keep ! i) \<in> set (zip xs keep)" "\<not> snd (xs ! i, keep ! i)"
    using len by (auto simp: set_zip)
  then have "length (filter snd (zip xs keep)) < length (zip xs keep)"
    by (intro length_filter_less)
  then show ?thesis
    by (simp add: ys len)
qed

text \<open>
  The loop of \<open>detect_threshold_crossings\<close>; its state is the two variables
  \<open>threshold_crossings\<close> and \<open>distance_sufficient\<close>.
\<close>

function dead_time_loop :: "int list \<Rightarrow> bool list \<Rightarrow> real \<Rightarrow> np_error + int list" where
  "dead_time_loop threshold_crossings keep dead_time_idx =
     (if np_all keep then Inr threshold_crossings
      else (case bool_index threshold_crossings keep of
              Inl e \<Rightarrow> Inl e
            | Inr kept \<Rightarrow>
                dead_time_loop kept (distance_sufficient kept dead_time_idx) dead_time_idx))"
  by pat_completeness auto
termination
  by (relation "measure (\<lambda>(tc, keep, d). length tc)") (auto simp: bool_index_shorter)

declare dead_time_loop.simps [simp del]

definition detect_threshold_crossings ::
  "real list \<Rightarrow> real \<Rightarrow> real \<Rightarrow> real \<Rightarrow> np_error + int list" where
  "detect_threshold_crossings signal fs threshold dead_time' =
     (let dead_time_idx = dead_time' * fs;
          threshold_crossings =
            np_nonzero (np_diff_bool
              (map (\<lambda>b. (if b then 1 else (0::int)) > 0) (map (\<lambda>x. x \<le> threshold) signal)))
      in dead_time_loop threshold_crossings
           (distance_sufficient threshold_crossings dead_time_idx) dead_time_idx)"

definition get_next_minimum :: "real list \<Rightarrow> int \<Rightarrow> int \<Rightarrow> np_error + int" where
  "get_next_minimum signal index max_samples_to_search =
     (let search_end_idx = min (index + max_samples_to_search) (int (length signal))
      in case np_argmin (py_slice signal index search_end_idx) of
           Inl e \<Rightarrow> Inl e
         | Inr min_idx \<Rightarrow> Inr (index + int min_idx))"

fun align_each :: "real list \<Rightarrow> int \<Rightarrow> int list \<Rightarrow> np_error + int list" where
  "align_each signal search_end [] = Inr []"
| "align_each signal search_end (t # ts) =
     (case get_next_minimum signal t search_end of
        Inl e \<Rightarrow> Inl e
      | Inr m \<Rightarrow> (case align_each signal search_end ts of
                    Inl e \<Rightarrow> Inl e
                  | Inr ms \<Rightarrow> Inr (m # ms)))"

definition align_to_minimum :: "real list \<Rightarrow> real \<Rightarrow> int list \<Rightarrow> real \<Rightarrow> np_error + int list" where
  "align_to_minimum signal fs threshold_crossings search_range' =
     (let search_end = py_int (search_range' * fs)
      in align_each signal search_end threshold_crossings)"

subsection \<open>The operator call\<close>

text \<open>
  Modelled from the spec: the class \<open>Signal\<close> (miv.core.datatype) is missing from the
  sources. Of a signal \<open>__call__\<close> reads \<open>number_of_channels\<close>, \<open>timestamps\<close>, \<open>rate\<close> and
  \<open>signal[channel]\<close>, the array of one channel; the record holds the channels' arrays (their
  number is \<open>number_of_channels\<close>), the timestamps and the rate.
\<close>

record Signal =
  data :: "real list list"
  timestamps :: "real list"
  rate :: real

text \<open>
  Modelled from the spec: the class \<open>Spikestamps\<close> (miv.core.datatype) is missing from the
  sources. It is the declared output type of the operator; \<open>__call__\<close> builds it from the
  list of spike trains, one per channel.
\<close>

datatype Spikestamps = Spikestamps "real list list"

text \<open>
  The body of the loop over the channels in \<open>__call__\<close>. With \<open>return_neotype\<close> the source
  wraps the same times in a \<open>neo.SpikeTrain\<close>, a class of another library; the model keeps
  the times.
\<close>

definition detect_channel :: "ThresholdCutoff \<Rightarrow> Signal \<Rightarrow> real list \<Rightarrow> np_error + real list" where
  "detect_channel self signal array =
     (let spike_threshold = compute_spike_threshold array (cutoff self) (use_mad self)
      in case detect_threshold_crossings array (rate signal) spike_threshold (dead_time self) of
           Inl e \<Rightarrow> Inl e
         | Inr crossings \<Rightarrow>
             (case align_to_minimum array (rate signal) crossings (search_range self) of
                Inl e \<Rightarrow> Inl e
              | Inr spikes \<Rightarrow>
                  (case np_min (timestamps signal) of
                     Inl e \<Rightarrow> Inl e
                   | Inr t0 \<Rightarrow> Inr (map (\<lambda>k. real_of_int k / rate signal + t0) spikes))))"

fun detect_channels :: "ThresholdCutoff \<Rightarrow> Signal \<Rightarrow> real list list \<Rightarrow> np_error + real list list" where
  "detect_channels self signal [] = Inr []"
| "detect_channels self signal (array # arrays) =
     (case detect_channel self signal array of
        Inl e \<Rightarrow> Inl e
      | Inr spikestamp \<Rightarrow>
          (case detect_channels self signal arrays of
             Inl e \<Rightarrow> Inl e
           | Inr spiketrain_list \<Rightarrow> Inr (spikestamp # spiketrain_list)))"

definition call_body :: "ThresholdCutoff \<Rightarrow> Signal \<Rightarrow> np_error + Spikestamps" where
  "call_body self signal =
     (case detect_channels self signal (data signal) of
        Inl e \<Rightarrow> Inl e
      | Inr spiketrain_list \<Rightarrow> Inr (Spikestamps spiketrain_list))"

text \<open>
  The two decorators of \<open>__call__\<close> (miv.core.wrapper) and the merge of two \<open>Spikestamps\<close>
  are missing from the sources. The spec says of an operator whose computation yields a
  lazy sequence of chunks that it "must concatenate/merge all yielded chunks into one
  aggregate result type before returning" (4.3), by "an explicit collapse step (concatenate
  chunks into the node's declared output type)" (9). The definitions below follow these
  words.
\<close>

text \<open>
  Modelled from the spec: the input of an operator (missing: the generator protocol of
  miv.core.wrapper), one value or a lazy, finite sequence of values.
\<close>

datatype 'a lazy = Single 'a | Generator "'a list"

text \<open>
  Modelled from the spec: the merge of two lists of spike trains (missing:
  \<open>Spikestamps.extend\<close>), which concatenates them channel by channel; a channel that only
  one of them has is kept as it is.
\<close>

fun extend_channels :: "real list list \<Rightarrow> real list list \<Rightarrow> real list list" where
  "extend_channels [] ys = ys"
| "extend_channels xs [] = xs"
| "extend_channels (x # xs) (y # ys) = (x @ y) # extend_channels xs ys"

text \<open>Modelled from the spec: the same merge on \<open>Spikestamps\<close> (missing: \<open>Spikestamps.extend\<close>).\<close>

fun Spikestamps_extend :: "Spikestamps \<Rightarrow> Spikestamps \<Rightarrow> Spikestamps" where
  "Spikestamps_extend (Spikestamps a) (Spikestamps b) = Spikestamps (extend_channels a b)"

text \<open>
  Modelled from the spec: the inner decorator (missing: \<open>wrap_generator_to_generator\<close>). On
  one value it calls the computation; on a lazy sequence it yields the computation's
  result for every element.
\<close>

definition wrap_generator_to_generator ::
  "('a \<Rightarrow> np_error + 'b) \<Rightarrow> 'a lazy \<Rightarrow> (np_error + 'b) lazy" where
  "wrap_generator_to_generator f input =
     (case input of Single x \<Rightarrow> Single (f x) | Generator xs \<Rightarrow> Generator (map f xs))"

text \<open>
  Modelled from the spec: the collapse step (missing: the loop of
  \<open>wrap_output_generator_collapse\<close>). Every yielded chunk is merged into the aggregate, in
  the order the chunks are yielded; an exception raised for a chunk ends it.
\<close>

fun collapse :: "Spikestamps \<Rightarrow> (np_error + Spikestamps) list \<Rightarrow> np_error + Spikestamps" where
  "collapse stack [] = Inr stack"
| "collapse stack (Inl e # chunks) = Inl e"
| "collapse stack (Inr chunk # chunks) = collapse (Spikestamps_extend stack chunk) chunks"

text \<open>
  Modelled from the spec: the outer decorator (missing: \<open>wrap_output_generator_collapse\<close>,
  here applied to \<open>Spikestamps\<close>). A single result is returned as it is; a lazy sequence of
  results is collapsed, starting from an empty \<open>Spikestamps\<close>.
\<close>

definition wrap_output_generator_collapse ::
  "('a lazy \<Rightarrow> (np_error + Spikestamps) lazy) \<Rightarrow> 'a lazy \<Rightarrow> np_error + Spikestamps" where
  "wrap_output_generator_collapse g input =
     (case g input of Single r \<Rightarrow> r | Generator chunks \<Rightarrow> collapse (Spikestamps []) chunks)"

text \<open>\<open>ThresholdCutoff.__call__\<close> as the source decorates it: the collapse around the generator wrapper around the body.\<close>

definition ThresholdCutoff_call :: "ThresholdCutoff \<Rightarrow> Signal lazy \<Rightarrow> np_error + Spikestamps" where
  "ThresholdCutoff_call self =
     wrap_output_generator_collapse (wrap_generator_to_generator (call_body self))"

text \<open>The spike train of one channel of a \<open>Spikestamps\<close>; empty beyond its channels.\<close>

definition channel_at :: "real list list \<Rightarrow> nat \<Rightarrow> real list" where
  "channel_at d c = (if c < length d then d ! c else [])"

fun channel_of :: "Spikestamps \<Rightarrow> nat \<Rightarrow> real list" where
  "channel_of (Spikestamps d) c = channel_at d c"

text \<open>Two chunks of one channel each, and an operator with small parameters, to evaluate on.\<close>

definition two_chunks :: "Signal list" where
  "two_chunks =
     [\<lparr>data = [[0, -2, -3, 0, -5, 0, 0, -1, -9]], timestamps = [0, 1, 2, 3, 4, 5, 6, 7, 8], rate = 1\<rparr>,
      \<lparr>data = [[0, 1, -7, 1, 2]], timestamps = [9, 10, 11, 12, 13], rate = 1\<rparr>]"

definition demo_cutoff :: ThresholdCutoff where
  "demo_cutoff = ThresholdCutoff_default\<lparr>dead_time := 2, search_range := 2, cutoff := 1\<rparr>"

section \<open>Burst statistics (miv/statistics/burst.py)\<close>

text \<open>
  \<open>burst\<close> returns four zeros when it found no burst and four arrays otherwise. \<open>min_len\<close>
  is used as a count and as a slice bound; the model takes it as a natural number.
\<close>

datatype burst_result =
  BurstScalars int int int int
| BurstArrays "real list" "real list" "int list" "real list"

text \<open>
  The inner \<open>while\<close> loop: \<open>q\<close> walks to the right of the window while the intervals stay
  marked, \<open>t\<close> keeps the last \<open>q\<close> that was.
\<close>

function extend_burst :: "int list \<Rightarrow> nat \<Rightarrow> nat \<Rightarrow> nat \<Rightarrow> nat \<Rightarrow> nat" where
  "extend_burst burst_spike i min_spikes t q =
     (if 0 < q \<and> int (i + q + min_spikes) \<le> int (length burst_spike) - 1 then
        (if burst_spike ! (i + q + min_spikes - 1) = 1
         then extend_burst burst_spike i min_spikes q (q + 1)
         else extend_burst burst_spike i min_spikes t 0)
      else t)"
  by pat_completeness auto
termination
  by (relation "measure (\<lambda>(bs, i, ms, t, q). if 0 < q then Suc (length bs - (i + q + ms)) else 0)")
     auto

declare extend_burst.simps [simp del]

text \<open>\<open>burst_spike[lo:hi] = 0\<close>\<close>

definition zero_slice :: "int list \<Rightarrow> nat \<Rightarrow> nat \<Rightarrow> int list" where
  "zero_slice burst_spike lo hi =
     map (\<lambda>(k, b). if lo \<le> k \<and> k < hi then 0 else b) (zip [0..<length burst_spike] burst_spike)"

text \<open>One round of the \<open>for\<close> loop; the state is \<open>burst_spike\<close> and the list \<open>burst\<close>.\<close>

definition burst_step :: "nat \<Rightarrow> int list \<times> (nat \<times> nat) list \<Rightarrow> nat \<Rightarrow> int list \<times> (nat \<times> nat) list" where
  "burst_step min_spikes st i =
     (case st of (burst_spike, burst) \<Rightarrow>
        if sum_list (take min_spikes (drop i burst_spike)) = int min_spikes then
          (let t = extend_burst burst_spike i min_spikes 0 1
           in (zero_slice burst_spike i (i + t + min_spikes), burst @ [(i, t + min_spikes)]))
        else (burst_spike, burst))"

text \<open>
  The function on the selected spike train. \<open>Q\<close> holds a row \<open>[i, t + min_spikes]\<close> per burst
  found; by the bounds of the two loops \<open>i + t + min_spikes\<close> stays below the number of
  intervals, so the reads \<open>spike[Q[:, 0]]\<close> and \<open>spike[Q[:, 0] + Q[:, 1]]\<close> are in range. A
  burst of duration zero gives an infinite rate in numpy and 0 here.
\<close>

definition burst_train :: "real list \<Rightarrow> real \<Rightarrow> nat \<Rightarrow> burst_result" where
  "burst_train spike min_isi min_len =
     (let spike_interval = np_diff_real spike;
          burst_spike = map (\<lambda>d. if d \<le> min_isi then 1 else (0::int)) spike_interval;
          min_spikes = min_len;
          rounds = (if min_spikes \<le> length burst_spike
                    then [0..<length burst_spike - min_spikes] else []);
          Q = snd (foldl (burst_step min_spikes) (burst_spike, []) rounds)
      in if sum_list (map (\<lambda>(i, n). int i + int n) Q) = 0 then BurstScalars 0 0 0 0
         else
           (let start_time = map (\<lambda>(i, n). spike ! i) Q;
                end_time = map (\<lambda>(i, n). spike ! (i + n)) Q;
                burst_len = map (\<lambda>(i, n). int n + 1) Q;
                burst_duration = map (\<lambda>(e, s). e - s) (zip end_time start_time);
                burst_rate = map (\<lambda>(l, d). real_of_int l / d) (zip burst_len burst_duration)
            in BurstArrays start_time burst_duration burst_len burst_rate))"

definition burst :: "real list list \<Rightarrow> nat \<Rightarrow> real \<Rightarrow> nat \<Rightarrow> np_error + burst_result" where
  "burst spiketrains channel min_isi min_len =
     (if channel < length spiketrains
      then Inr (burst_train (spiketrains ! channel) min_isi min_len)
      else Inl IndexError)"

section \<open>The executor: what a run does\<close>

lemma run_loop_append:
  "run_loop nrun sp nc dr vb (xs @ ys) w =
     (case run_loop nrun sp nc dr vb xs w of
        (Some e, w', cs) \<Rightarrow> (Some e, w', cs)
      | (None, w', cs) \<Rightarrow>
          (case run_loop nrun sp nc dr vb ys w' of (r, w'', cs') \<Rightarrow> (r, w'', cs @ cs')))"
proof (induction xs arbitrary: w)
  case Nil
  show ?case by (simp split: prod.splits)
next
  case (Cons x xs)
  show ?case
    by (simp add: Cons.IH Let_def split: prod.splits option.splits)
qed

lemma run_loop_calls_nodes:
  "run_loop nrun sp nc dr vb ns w = (r, w', cs) \<Longrightarrow>
     map call_node cs = take (length cs) ns \<and> (r = None \<longrightarrow> length cs = length ns)"
proof (induction ns arbitrary: w r w' cs)
  case Nil
  then show ?case by simp
next
  case (Cons n ns)
  then show ?case
    by (auto simp: Let_def split: prod.splits option.splits)
qed

lemma run_loop_calls_save_path:
  "run_loop nrun sp nc dr vb ns w = (r, w', cs) \<Longrightarrow> c \<in> set cs \<Longrightarrow> call_save_path c = sp"
proof (induction ns arbitrary: w r w' cs)
  case Nil
  then show ?case by simp
next
  case (Cons n ns)
  then show ?case
    by (auto simp: Let_def split: prod.splits option.splits)
qed

lemma run_calls:
  "snd (snd (run self sp nc dr vb nrun w)) =
     snd (snd (run_loop nrun sp nc dr vb (execution_order self) w))"
  by (simp add: run_def Let_def split: prod.splits option.splits)

lemma run_raised:
  "fst (run self sp nc dr vb nrun w) = fst (run_loop nrun sp nc dr vb (execution_order self) w)"
  by (simp add: run_def Let_def split: prod.splits option.splits)

lemma summarize_loop_eq:
  "summarize_loop w i ops strs =
     strs @ map (\<lambda>(k, op). str_nat k @ '': '' @ node_str (heap w op)) (List.enumerate i ops)"
  by (induction ops arbitrary: i strs) simp_all

lemma configure_cache_heap:
  "heap (configure_cache nc n w) m =
     (if m = n then
        (case cacher (heap w n) of
           None \<Rightarrow> heap w n
         | Some k \<Rightarrow> (heap w n)\<lparr>cacher := Some (k\<lparr>cache_policy := (if nc then ''OFF'' else ''AUTO'')\<rparr>)\<rparr>)
      else heap w m)"
  by (simp add: configure_cache_def split: option.splits)

lemma announce_heap: "heap (announce vb n w) = heap w"
  by (simp add: announce_def print2_def)

text \<open>
  C1 (the code departs from it): in verbose mode the run should emit, after the loop, the
  summary of the execution order as lines \<open>index: node\<close>. On the three-node pipeline the
  console holds the three \<open>Running:\<close> lines, \<open>Pipeline done:\<close> and the rule of dashes and
  nothing else: the string built by \<open>summarize\<close> (second conjunct) is never written.
\<close>
theorem run_verbose_drops_summary:
  "stdout (fst (snd (run \<lparr>execution_order = [0, 1, 2]\<rparr> (Some ''./results'') False False True
                       quiet_run abc_world)))
     = ''Running:  A'' @ newline @ ''Running:  B'' @ newline @ ''Running:  C'' @ newline @
       ''Pipeline done:'' @ newline @
       ''----------------------------------------------'' @ newline
   \<and> summarize \<lparr>execution_order = [0, 1, 2]\<rparr> abc_world
     = ''Execution order:'' @ newline @ ''0: A'' @ newline @ ''1: B'' @ newline @ ''2: C''"
  by code_simp

text \<open>
  C2: when the nodes before \<open>n\<close> have run without raising and left the world \<open>w1\<close>, the
  world handed to the \<open>run\<close> of \<open>n\<close> has \<open>n\<close> as it was in \<open>w1\<close>, except that the policy of
  its cache controller, if it has one, is \<open>"OFF"\<close> when \<open>no_cache\<close> holds and \<open>"AUTO"\<close>
  otherwise; a node without a controller is handed over as it was, and no other node and
  nothing outside the heap is touched.
\<close>
theorem run_sets_cache_policy_before_node_run:
  assumes "execution_order self = pre @ n # post"
    and "run_loop nrun sp nc dr vb pre w0 = (None, w1, cs)"
  shows "call_node (snd (snd (run self sp nc dr vb nrun w0)) ! length pre) = n
    \<and> heap (call_world (snd (snd (run self sp nc dr vb nrun w0)) ! length pre)) n =
        (case cacher (heap w1 n) of
           None \<Rightarrow> heap w1 n
         | Some k \<Rightarrow> (heap w1 n)\<lparr>cacher := Some (k\<lparr>cache_policy := (if nc then ''OFF'' else ''AUTO'')\<rparr>)\<rparr>)
    \<and> (\<forall>m. m \<noteq> n \<longrightarrow>
          heap (call_world (snd (snd (run self sp nc dr vb nrun w0)) ! length pre)) m = heap w1 m)
    \<and> rest (call_world (snd (snd (run self sp nc dr vb nrun w0)) ! length pre)) = rest w1"
proof -
  let ?w2 = "configure_cache nc n (announce vb n w1)"
  let ?c = "\<lparr>call_node = n, call_dry_run = dr, call_save_path = sp, call_world = ?w2\<rparr>"
  have len: "length cs = length pre"
    using run_loop_calls_nodes [OF assms(2)] by simp
  have "\<exists>r w' cs'. run_loop nrun sp nc dr vb (n # post) w1 = (r, w', ?c # cs')"
    by (simp add: Let_def split: option.splits prod.splits)
  then obtain r w' cs' where tl: "run_loop nrun sp nc dr vb (n # post) w1 = (r, w', ?c # cs')"
    by blast
  have "snd (snd (run_loop nrun sp nc dr vb (pre @ n # post) w0)) = cs @ ?c # cs'"
    by (simp add: run_loop_append assms(2) tl del: run_loop.simps)
  then have "snd (snd (run self sp nc dr vb nrun w0)) ! length pre = ?c"
    by (simp add: run_calls assms(1) len [symmetric])
  moreover have "rest ?w2 = rest w1"
    by (simp add: configure_cache_def announce_def print2_def split: option.splits)
  ultimately show ?thesis
    by (simp add: configure_cache_heap announce_heap split: option.splits)
qed

theorem run_sets_cache_policy_before_node_run_witness:
  "cacher (heap (call_world (snd (snd (run \<lparr>execution_order = [1, 0, 2]\<rparr> None True False False
                                        quiet_run abc_world)) ! 1)) 0)
     = Some \<lparr>cache_policy = ''OFF''\<rparr>
   \<and> cacher (heap (call_world (snd (snd (run \<lparr>execution_order = [1, 0, 2]\<rparr> None True False False
                                        quiet_run abc_world)) ! 1)) 2)
     = Some \<lparr>cache_policy = ''ON''\<rparr>"
proof -
  have order: "execution_order \<lparr>execution_order = [1, 0, 2]\<rparr> = [1] @ 0 # [2]"
    by simp
  have before: "run_loop quiet_run None True False False [1] abc_world =
      (None, abc_world, [\<lparr>call_node = 1, call_dry_run = False, call_save_path = None,
                           call_world = abc_world\<rparr>])"
    by (simp add: quiet_run_def announce_def configure_cache_def abc_world_def Let_def)
  show ?thesis
    using run_sets_cache_policy_before_node_run [OF order before]
    by (simp add: abc_world_def)
qed

text \<open>
  C3: when the node at position \<open>length pre\<close> raises \<open>e\<close>, the run ends with that same
  exception and the world the node left, and the nodes invoked are exactly those up to
  and including it: none of \<open>post\<close> is run.
\<close>
theorem run_propagates_node_exception:
  assumes "execution_order self = pre @ n # post"
    and "run_loop nrun sp nc dr vb pre w0 = (None, w1, cs)"
    and "nrun n dr sp (configure_cache nc n (announce vb n w1)) = (Some e, w2)"
  shows "fst (run self sp nc dr vb nrun w0) = Some e
    \<and> fst (snd (run self sp nc dr vb nrun w0)) = w2
    \<and> map call_node (snd (snd (run self sp nc dr vb nrun w0))) = pre @ [n]"
proof -
  let ?c = "\<lparr>call_node = n, call_dry_run = dr, call_save_path = sp,
             call_world = configure_cache nc n (announce vb n w1)\<rparr>"
  have pre: "map call_node cs = pre"
    using run_loop_calls_nodes [OF assms(2)] by simp
  have "run_loop nrun sp nc dr vb (n # post) w1 = (Some e, w2, [?c])"
    using assms(3) by (simp add: Let_def)
  then have "run_loop nrun sp nc dr vb (pre @ n # post) w0 = (Some e, w2, cs @ [?c])"
    by (simp add: run_loop_append assms(2) del: run_loop.simps)
  then show ?thesis
    by (simp add: run_def assms(1) pre)
qed

theorem run_propagates_node_exception_witness:
  "fst (run \<lparr>execution_order = [0, 1, 2]\<rparr> None False False False (failing_run 1) abc_world)
     = Some (PyException ''boom'')
   \<and> map call_node (snd (snd (run \<lparr>execution_order = [0, 1, 2]\<rparr> None False False False
                                  (failing_run 1) abc_world))) = [0, 1]"
proof -
  let ?w1 = "configure_cache False 0 abc_world"
  have order: "execution_order \<lparr>execution_order = [0, 1, 2]\<rparr> = [0] @ 1 # [2]"
    by simp
  have before: "run_loop (failing_run 1) None False False False [0] abc_world =
      (None, ?w1, [\<lparr>call_node = 0, call_dry_run = False, call_save_path = None,
                     call_world = ?w1\<rparr>])"
    by (simp add: failing_run_def announce_def Let_def)
  have raises: "failing_run 1 1 False None (configure_cache False 1 (announce False 1 ?w1)) =
      (Some (PyException ''boom''), configure_cache False 1 (announce False 1 ?w1))"
    by (simp add: failing_run_def)
  show ?thesis
    using run_propagates_node_exception [OF order before raises] by simp
qed

text \<open>
  C4: \<open>summarize\<close> returns the header \<open>Execution order:\<close> and then one line
  \<open>{index}: {node}\<close> per node of the execution order, joined by newlines; for three nodes
  these are the indices 0, 1 and 2 with the nodes' string forms.
\<close>
theorem summarize_format:
  "summarize self w =
     join_newline (''Execution order:'' #
       map (\<lambda>(i, op). str_nat i @ '': '' @ node_str (heap w op))
         (List.enumerate 0 (execution_order self)))
   \<and> summarize \<lparr>execution_order = [a, b, c]\<rparr> w =
       ''Execution order:'' @ newline @
       ''0: '' @ node_str (heap w a) @ newline @
       ''1: '' @ node_str (heap w b) @ newline @
       ''2: '' @ node_str (heap w c)"
proof
  show "summarize self w =
     join_newline (''Execution order:'' #
       map (\<lambda>(i, op). str_nat i @ '': '' @ node_str (heap w op))
         (List.enumerate 0 (execution_order self)))"
    by (simp add: summarize_def summarize_loop_eq)
  have d: "str_nat 0 = ''0''" "str_nat 1 = ''1''" "str_nat 2 = ''2''" 
    by code_simp+
  show "summarize \<lparr>execution_order = [a, b, c]\<rparr> w =
       ''Execution order:'' @ newline @
       ''0: '' @ node_str (heap w a) @ newline @
       ''1: '' @ node_str (heap w b) @ newline @
       ''2: '' @ node_str (heap w c)"
    using d by (simp add: summarize_def eval_nat_numeral)
qed

text \<open>
  C5: the order is the result of the topological sort from the terminal node at
  construction (in the world \<open>w\<close>). A run or a summary in any later world \<open>w'\<close> works on
  that list: the nodes invoked are a prefix of it, all of it when nothing raises, and the
  summary enumerates it. The sort is not consulted again, whatever it would answer in
  \<open>w'\<close>.
\<close>
theorem execution_order_frozen_at_construction:
  "execution_order (Pipeline_init topological_sort w node) = topological_sort w node
   \<and> map call_node (snd (snd (run (Pipeline_init topological_sort w node) sp nc dr vb nrun w')))
       = take (length (snd (snd (run (Pipeline_init topological_sort w node) sp nc dr vb nrun w'))))
           (topological_sort w node)
   \<and> (fst (run (Pipeline_init topological_sort w node) sp nc dr vb nrun w') = None \<longrightarrow>
        map call_node (snd (snd (run (Pipeline_init topological_sort w node) sp nc dr vb nrun w')))
          = topological_sort w node)
   \<and> summarize (Pipeline_init topological_sort w node) w' =
       join_newline (''Execution order:'' #
         map (\<lambda>(i, op). str_nat i @ '': '' @ node_str (heap w' op))
           (List.enumerate 0 (topological_sort w node)))"
proof -
  let ?p = "Pipeline_init topological_sort w node"
  let ?r = "run_loop nrun sp nc dr vb (topological_sort w node) w'"
  have order: "execution_order ?p = topological_sort w node"
    by (simp add: Pipeline_init_def)
  have loop: "?r = (fst ?r, fst (snd ?r), snd (snd ?r))"
    by simp
  have calls: "map call_node (snd (snd ?r)) = take (length (snd (snd ?r))) (topological_sort w node)"
    and all: "fst ?r = None \<longrightarrow> length (snd (snd ?r)) = length (topological_sort w node)"
    using run_loop_calls_nodes [OF loop] by blast+
  show ?thesis
    using calls all by (simp add: run_calls run_raised order summarize_def summarize_loop_eq)
qed

theorem execution_order_frozen_at_construction_witness:
  "chain_sort abc_world 2 = [0, 1, 2]
   \<and> chain_sort (print1 ''later'' abc_world) 2 = []
   \<and> map call_node (snd (snd (run (Pipeline_init chain_sort abc_world 2) None False False False
                                  quiet_run (print1 ''later'' abc_world)))) = [0, 1, 2]"
proof -
  have ok: "fst (run (Pipeline_init chain_sort abc_world 2) None False False False
                   quiet_run (print1 ''later'' abc_world)) = None"
    by code_simp
  have s: "chain_sort abc_world 2 = [0, 1, 2]" "chain_sort (print1 ''later'' abc_world) 2 = []"
    by code_simp+
  have "map call_node (snd (snd (run (Pipeline_init chain_sort abc_world 2) None False False False
                                  quiet_run (print1 ''later'' abc_world)))) = chain_sort abc_world 2"
    by (rule execution_order_frozen_at_construction
          [THEN conjunct2, THEN conjunct2, THEN conjunct1, THEN mp, OF ok])
  then show ?thesis
    using s by simp
qed

text \<open>
  C6: when the call gives no \<open>save_path\<close>, every node's \<open>run\<close> receives \<open>"./results"\<close>.
\<close>
theorem run_default_save_path:
  assumes "kw_save_path kw = None"
  shows "\<forall>c \<in> set (snd (snd (run_call self kw nrun w))). call_save_path c = Some ''./results''"
proof
  fix c
  assume c: "c \<in> set (snd (snd (run_call self kw nrun w)))"
  let ?nc = "case kw_no_cache kw of None \<Rightarrow> False | Some b \<Rightarrow> b"
  let ?dr = "case kw_dry_run kw of None \<Rightarrow> False | Some b \<Rightarrow> b"
  let ?vb = "case kw_verbose kw of None \<Rightarrow> False | Some b \<Rightarrow> b"
  let ?r = "run_loop nrun (Some ''./results'') ?nc ?dr ?vb (execution_order self) w"
  have loop: "?r = (fst ?r, fst (snd ?r), snd (snd ?r))"
    by simp
  have "c \<in> set (snd (snd ?r))"
    using c by (simp add: run_call_def assms run_calls)
  then show "call_save_path c = Some ''./results''"
    by (rule run_loop_calls_save_path [OF loop])
qed

theorem run_default_save_path_witness:
  "map call_save_path
     (snd (snd (run_call \<lparr>execution_order = [0, 1, 2]\<rparr>
                  \<lparr>kw_save_path = None, kw_no_cache = None, kw_dry_run = Some True,
                   kw_verbose = None\<rparr> quiet_run abc_world)))
   = [Some ''./results'', Some ''./results'', Some ''./results'']"
proof -
  let ?kw = "\<lparr>kw_save_path = None, kw_no_cache = None, kw_dry_run = Some True, kw_verbose = None\<rparr>"
  let ?cs = "snd (snd (run_call \<lparr>execution_order = [0, 1, 2]\<rparr> ?kw quiet_run abc_world))"
  have h: "kw_save_path ?kw = None"
    by simp
  have n: "map call_node ?cs = [0, 1, 2]"
    by code_simp
  have "length (map call_node ?cs) = 3"
    unfolding n by simp
  then have len: "length ?cs = 3"
    by simp
  have "map call_save_path ?cs = map (\<lambda>c. Some ''./results'') ?cs"
    using run_default_save_path [OF h, of "\<lparr>execution_order = [0, 1, 2]\<rparr>" quiet_run abc_world]
    by (intro map_cong [OF refl]) blast
  then show ?thesis
    unfolding map_replicate_const len by (simp add: eval_nat_numeral)
qed

section \<open>Spike detection: what the operator returns\<close>

lemma argmin_scan_bounds:
  "pos < i \<Longrightarrow> argmin_scan best pos i xs < i + length xs"
proof (induction xs arbitrary: best pos i)
  case Nil
  then show ?case by simp
next
  case (Cons x xs)
  have a: "argmin_scan x i (Suc i) xs < Suc i + length xs"
    by (rule Cons.IH) simp
  have b: "argmin_scan best pos (Suc i) xs < Suc i + length xs"
    by (rule Cons.IH) (use Cons.prems in simp)
  show ?case using a b by simp
qed

lemma np_argmin_bounds:
  "xs \<noteq> [] \<Longrightarrow> \<exists>k. np_argmin xs = Inr k \<and> k < length xs"
proof (cases xs)
  case Nil
  then show "xs \<noteq> [] \<Longrightarrow> ?thesis" by simp
next
  case (Cons y ys)
  have "argmin_scan y 0 1 ys < 1 + length ys"
    by (rule argmin_scan_bounds) simp
  then show ?thesis using Cons by simp
qed

lemma py_slice_length:
  assumes "0 \<le> lo" and "lo \<le> hi" and "hi \<le> int (length xs)"
  shows "length (py_slice xs lo hi) = nat (hi - lo)"
  using assms by (simp add: py_slice_def slice_bound_def Let_def min_def) linarith

text \<open>
  C10: for \<open>0 \<le> index < len(signal)\<close> and \<open>max_samples_to_search \<ge> 1\<close>, \<open>get_next_minimum\<close>
  returns a position \<open>r\<close> with \<open>index \<le> r < min(index + max_samples_to_search, len(signal))\<close>.
\<close>
theorem get_next_minimum_in_window:
  assumes "0 \<le> index" and "index < int (length signal)" and "1 \<le> max_samples_to_search"
  shows "\<exists>r. get_next_minimum signal index max_samples_to_search = Inr r
           \<and> index \<le> r
           \<and> r < min (index + max_samples_to_search) (int (length signal))"
proof -
  let ?e = "min (index + max_samples_to_search) (int (length signal))"
  have len: "length (py_slice signal index ?e) = nat (?e - index)"
    using assms by (intro py_slice_length) auto
  then have "py_slice signal index ?e \<noteq> []"
    using assms by auto
  then obtain k where k: "np_argmin (py_slice signal index ?e) = Inr k"
      and kb: "k < length (py_slice signal index ?e)"
    using np_argmin_bounds by blast
  have "int k < ?e - index"
    using kb len by linarith
  then have "index + int k < ?e"
    by linarith
  then show ?thesis
    using k by (simp add: get_next_minimum_def Let_def)
qed

theorem get_next_minimum_in_window_witness:
  "get_next_minimum [0, -2, -3, 0, -5, 0, 0, -1, -9] 1 3 = Inr 2"
proof -
  have "get_next_minimum [0, -2, -3, 0, -5, 0, 0, -1, -9] 1 3 = Inr 2"
    by (simp add: get_next_minimum_def py_slice_def slice_bound_def Let_def)
  moreover have "\<exists>r. get_next_minimum [0, -2, -3, 0, -5, 0, 0, -1, -9] 1 3 = Inr r
           \<and> 1 \<le> r \<and> r < min (1 + 3) (int (length [0, -2, -3, 0, -5, 0, 0, -1, -9 :: real]))"
    by (rule get_next_minimum_in_window) simp_all
  ultimately show ?thesis by simp
qed

lemma np_nonzero_sorted: "sorted_wrt (<) (np_nonzero bs)"
proof -
  have "sorted_wrt (<) (filter (\<lambda>i. bs ! i) [0..<length bs])"
    by (rule sorted_wrt_filter) simp
  then show ?thesis
    by (simp add: np_nonzero_def sorted_wrt_map)
qed

lemma kept_sorted:
  "sorted_wrt (<) xs \<Longrightarrow> sorted_wrt (<) (map fst (filter snd (zip xs keep)))"
proof (induction xs arbitrary: keep)
  case Nil
  then show ?case by simp
next
  case (Cons x xs)
  show ?case
  proof (cases keep)
    case Nil
    then show ?thesis by simp
  next
    case (Cons k ks)
    have sub: "\<And>y. y \<in> set (map fst (filter snd (zip xs ks))) \<Longrightarrow> y \<in> set xs"
      by (auto dest: set_zip_leftD)
    have above: "\<And>y. y \<in> set xs \<Longrightarrow> x < y"
      using Cons.prems by simp
    have "sorted_wrt (<) (map fst (filter snd (zip xs ks)))"
      using Cons.IH Cons.prems by simp
    then have "sorted_wrt (<) (x # map fst (filter snd (zip xs ks)))"
      using sub above by (simp del: set_map)
    then show ?thesis
      using Cons by (cases k) simp_all
  qed
qed

lemma bool_index_sorted:
  "bool_index xs keep = Inr ys \<Longrightarrow> sorted_wrt (<) xs \<Longrightarrow> sorted_wrt (<) ys"
  by (auto simp: bool_index_def kept_sorted split: if_splits)

lemma distance_sufficient_length:
  "xs \<noteq> [] \<Longrightarrow> length (distance_sufficient xs d) = length xs"
  by (cases xs) (simp_all add: distance_sufficient_def np_diff_int_def)

lemma distance_sufficient_all_empty: "np_all (distance_sufficient [] d)"
  by (simp add: distance_sufficient_def np_diff_int_def np_all_def)

lemma dead_time_loop_result:
  "sorted_wrt (<) tc \<Longrightarrow> keep = distance_sufficient tc d \<Longrightarrow>
     \<exists>r. dead_time_loop tc keep d = Inr r \<and> sorted_wrt (<) r \<and> np_all (distance_sufficient r d)"
proof (induction tc keep d rule: dead_time_loop.induct)
  case (1 tc keep d)
  show ?case
  proof (cases "np_all keep")
    case True
    then show ?thesis
      using "1.prems" by (simp add: dead_time_loop.simps)
  next
    case False
    then have ne: "tc \<noteq> []"
      using "1.prems"(2) distance_sufficient_all_empty by auto
    then have "length keep = length tc"
      using "1.prems"(2) by (simp add: distance_sufficient_length)
    then obtain kept where kept: "bool_index tc keep = Inr kept"
      by (simp add: bool_index_def)
    have "sorted_wrt (<) kept"
      using kept "1.prems"(1) by (rule bool_index_sorted)
    then have "\<exists>r. dead_time_loop kept (distance_sufficient kept d) d = Inr r
        \<and> sorted_wrt (<) r \<and> np_all (distance_sufficient r d)"
      using "1.IH" [OF False kept] by simp
    then show ?thesis
      using False kept by (simp add: dead_time_loop.simps)
  qed
qed

lemma distance_sufficient_nth:
  assumes "np_all (distance_sufficient r d)" and "Suc i < length r"
  shows "d \<le> real_of_int (r ! Suc i - r ! i)"
proof -
  have len: "i < length (zip r (tl r))"
    using assms(2) by simp
  have "\<forall>g \<in> set (np_diff_int r). d \<le> real_of_int g"
    using assms(1) by (simp add: np_all_def distance_sufficient_def list_all_iff)
  moreover have "np_diff_int r ! i = r ! Suc i - r ! i"
    using len assms(2) by (simp add: np_diff_int_def nth_tl)
  moreover have "np_diff_int r ! i \<in> set (np_diff_int r)"
    using len by (intro nth_mem) (simp add: np_diff_int_def)
  ultimately show ?thesis
    by metis
qed

text \<open>
  C8: for a sampling frequency \<open>fs > 0\<close> and \<open>dead_time \<ge> 0\<close>, \<open>detect_threshold_crossings\<close>
  returns (it raises nothing and its loop ends) an index array that is strictly increasing
  and in which any two consecutive indices are at least \<open>dead_time * fs\<close> apart.
\<close>
theorem detect_threshold_crossings_dead_time:
  assumes "0 < fs" and "0 \<le> dead_time'"
  shows "\<exists>r. detect_threshold_crossings signal fs threshold dead_time' = Inr r
           \<and> sorted_wrt (<) r
           \<and> (\<forall>i. Suc i < length r \<longrightarrow> dead_time' * fs \<le> real_of_int (r ! Suc i - r ! i))"
proof -
  let ?tc = "np_nonzero (np_diff_bool
              (map (\<lambda>b. (if b then 1 else (0::int)) > 0) (map (\<lambda>x. x \<le> threshold) signal)))"
  obtain r where r: "dead_time_loop ?tc (distance_sufficient ?tc (dead_time' * fs)) (dead_time' * fs) = Inr r"
      and s: "sorted_wrt (<) r" and a: "np_all (distance_sufficient r (dead_time' * fs))"
    using dead_time_loop_result [OF np_nonzero_sorted refl] by blast
  have "detect_threshold_crossings signal fs threshold dead_time' = Inr r"
    using r by (simp add: detect_threshold_crossings_def Let_def)
  then show ?thesis
    using s distance_sufficient_nth [OF a] by blast
qed

lemma crossings_example:
  "detect_threshold_crossings [0, -2, -3, 0, -5, 0, 0, -1, -9] 1000 (-1) (2 / 1000) = Inr [0, 2, 6]"
  by (simp add: detect_threshold_crossings_def Let_def np_nonzero_def np_diff_bool_def
      dead_time_loop.simps distance_sufficient_def np_diff_int_def np_all_def bool_index_def upt_rec)

theorem detect_threshold_crossings_dead_time_witness:
  "detect_threshold_crossings [0, -2, -3, 0, -5, 0, 0, -1, -9] 1000 (-1) (2 / 1000) = Inr [0, 2, 6]
   \<and> sorted_wrt (<) [0, 2, 6 :: int]
   \<and> (2 / 1000) * 1000 \<le> real_of_int ([0, 2, 6] ! Suc 0 - [0, 2, 6] ! 0)"
proof -
  have fs: "(0::real) < 1000" and dt: "(0::real) \<le> 2 / 1000"
    by simp_all
  obtain r where r: "detect_threshold_crossings [0, -2, -3, 0, -5, 0, 0, -1, -9] 1000 (-1) (2 / 1000) = Inr r"
    and s: "sorted_wrt (<) r"
    and g: "\<forall>i. Suc i < length r \<longrightarrow> (2 / 1000) * 1000 \<le> real_of_int (r ! Suc i - r ! i)"
    using detect_threshold_crossings_dead_time [OF fs dt, of "[0, -2, -3, 0, -5, 0, 0, -1, -9]" "-1"]
    by blast
  have eq: "r = [0, 2, 6]"
    using r crossings_example by simp
  have "(2 / 1000) * 1000 \<le> real_of_int (r ! Suc 0 - r ! 0)"
    using g eq by simp
  then show ?thesis
    using s crossings_example unfolding eq by simp
qed

lemma channel_at_simps:
  "channel_at [] c = []"
  "channel_at (x # xs) 0 = x"
  "channel_at (x # xs) (Suc n) = channel_at xs n"
  by (simp_all add: channel_at_def)

lemma channel_at_extend:
  "channel_at (extend_channels a b) c = channel_at a c @ channel_at b c"
proof (induction a b arbitrary: c rule: extend_channels.induct)
  case (1 ys)
  then show ?case by (simp add: channel_at_simps)
next
  case (2 xs)
  then show ?case by (simp add: channel_at_simps)
next
  case (3 x xs y ys)
  then show ?case by (cases c) (simp_all add: channel_at_simps)
qed

lemma channel_of_extend:
  "channel_of (Spikestamps_extend s r) c = channel_of s c @ channel_of r c"
  by (cases s; cases r) (simp add: channel_at_extend)

lemma collapse_all:
  "\<exists>agg. collapse stack (map Inr rs) = Inr agg
     \<and> (\<forall>c. channel_of agg c = channel_of stack c @ concat (map (\<lambda>r. channel_of r c) rs))"
proof (induction rs arbitrary: stack)
  case Nil
  show ?case by simp
next
  case (Cons r rs)
  show ?case
    using Cons.IH [of "Spikestamps_extend stack r"] by (auto simp: channel_of_extend)
qed

text \<open>
  C7: called on a lazy sequence of chunks for each of which the computation succeeds, the
  operator returns one \<open>Spikestamps\<close>, not the sequence: every channel of it is the
  concatenation, in order, of that channel's spike trains in all the chunks' results.
\<close>
theorem call_collapses_generator:
  assumes "map (call_body self) chunks = map Inr rs"
  shows "\<exists>agg. ThresholdCutoff_call self (Generator chunks) = Inr agg
           \<and> (\<forall>c. channel_of agg c = concat (map (\<lambda>r. channel_of r c) rs))"
proof -
  have "ThresholdCutoff_call self (Generator chunks) = collapse (Spikestamps []) (map Inr rs)"
    by (simp add: ThresholdCutoff_call_def wrap_output_generator_collapse_def
        wrap_generator_to_generator_def assms)
  then show ?thesis
    using collapse_all [of "Spikestamps []" rs] by (simp add: channel_at_simps)
qed

lemma call_body_first_chunk: "call_body demo_cutoff (two_chunks ! 0) = Inr (Spikestamps [[1, 2, 8]])"
  apply (simp add: call_body_def two_chunks_def detect_channel_def demo_cutoff_def ThresholdCutoff_default_def
      compute_spike_threshold_def np_median_def Let_def)
  apply (simp add: detect_threshold_crossings_def Let_def np_nonzero_def np_diff_bool_def
      dead_time_loop.simps distance_sufficient_def np_diff_int_def np_all_def bool_index_def upt_rec)
  apply (simp add: align_to_minimum_def py_int_def get_next_minimum_def py_slice_def slice_bound_def np_min_def Let_def)
  done


lemma call_body_second_chunk: "call_body demo_cutoff (two_chunks ! 1) = Inr (Spikestamps [[11]])"
  apply (simp add: call_body_def two_chunks_def detect_channel_def demo_cutoff_def ThresholdCutoff_default_def
      compute_spike_threshold_def np_median_def Let_def)
  apply (simp add: detect_threshold_crossings_def Let_def np_nonzero_def np_diff_bool_def
      dead_time_loop.simps distance_sufficient_def np_diff_int_def np_all_def bool_index_def upt_rec)
  apply (simp add: align_to_minimum_def py_int_def get_next_minimum_def py_slice_def slice_bound_def np_min_def Let_def)
  done

theorem call_collapses_generator_witness:
  "\<exists>agg. ThresholdCutoff_call demo_cutoff (Generator two_chunks) = Inr agg
      \<and> channel_of agg 0 = [1, 2, 8, 11]"
proof -
  have each: "map (call_body demo_cutoff) two_chunks =
      map Inr [Spikestamps [[1, 2, 8]], Spikestamps [[11]]]"
    using call_body_first_chunk call_body_second_chunk by (simp add: two_chunks_def)
  obtain agg where agg: "ThresholdCutoff_call demo_cutoff (Generator two_chunks) = Inr agg"
    and chan: "\<forall>c. channel_of agg c =
        concat (map (\<lambda>r. channel_of r c) [Spikestamps [[1, 2, 8]], Spikestamps [[11]]])"
    using call_collapses_generator [OF each] by blast
  have "channel_of agg 0 = [1, 2, 8, 11]"
    using chan by (simp add: channel_at_def)
  then show ?thesis
    using agg by blast
qed

section \<open>Burst statistics: the window at the end of the train\<close>

text \<open>
  C9 (the code departs from it): when a window of \<open>min_len\<close> consecutive inter-spike intervals
  of at most \<open>min_isi\<close> exists, \<open>burst\<close> should return arrays. For the spike train
  \<open>[0, 1, 2, 2.05, 2.1]\<close>, \<open>min_isi = 0.1\<close> and \<open>min_len = 2\<close> the intervals are
  \<open>[1, 1, 0.05, 0.05]\<close>; the last two form such a window, yet the result is the four
  zeros: the \<open>for\<close> loop stops one start position short and never reads the last interval.
\<close>
theorem burst_misses_final_window:
  "burst [[0, 1, 2, 41 / 20, 21 / 10]] 0 (1 / 10) 2 = Inr (BurstScalars 0 0 0 0)
   \<and> np_diff_real [0, 1, 2, 41 / 20, 21 / 10] = [1, 1, 1 / 20, 1 / 20]
   \<and> list_all (\<lambda>d. d \<le> 1 / 10) (take 2 (drop 2 (np_diff_real [0, 1, 2, 41 / 20, 21 / 10])))"
  by (simp add: burst_def burst_train_def Let_def np_diff_real_def burst_step_def)

end
